theory Spec2Isabelle
  imports Main "HOL-Library.Sublist"
begin

section \<open>Module-level helpers of base\_event.py\<close>

text \<open>
  The module \<^verbatim>\<open>site_utils/suite_scheduler/base_event.py\<close> has three free functions
  and the class \<^verbatim>\<open>BaseEvent\<close>. Python strings are modelled as \<^typ>\<open>string\<close>.
\<close>

subsection \<open>Python values that reach a \%s conversion\<close>

text \<open>
  \<^verbatim>\<open>BuildName\<close> formats its four arguments with \<^verbatim>\<open>'%s-%s/R%s-%s' % (...)\<close>. The
  conversion \<^verbatim>\<open>%s\<close> applies \<^verbatim>\<open>str()\<close> to whatever it is given; the docstring passes
  strings for board, type and manifest and a number for the milestone. A value is
  therefore a string or an (unbounded) integer, and \<open>py_str\<close> is \<^verbatim>\<open>str()\<close> on it:
  a string is left as it is, an integer is written in decimal with a leading minus
  sign when negative.
\<close>

datatype pyval = PyStr string | PyInt int

definition digit_char :: "nat \<Rightarrow> char" where
  "digit_char d = ''0123456789'' ! d"

fun str_nat :: "nat \<Rightarrow> string" where
  "str_nat n = (if n < 10 then [digit_char n] else str_nat (n div 10) @ [digit_char (n mod 10)])"

definition str_int :: "int \<Rightarrow> string" where
  "str_int i = (if i < 0 then CHR ''-'' # str_nat (nat (- i)) else str_nat (nat i))"

fun py_str :: "pyval \<Rightarrow> string" where
  "py_str (PyStr s) = s"
| "py_str (PyInt i) = str_int i"

subsection \<open>SectionName, HonoredSection, BuildName\<close>

definition SECTION_SUFFIX :: string where
  "SECTION_SUFFIX = ''_params''"

text \<open>\<^verbatim>\<open>_LATEST_LAUNCH_CONTROL_BUILD_FMT = '%s/%s/LATEST'\<close>, applied to a branch and a target.\<close>

definition LATEST_LAUNCH_CONTROL_BUILD_FMT :: "string \<Rightarrow> string \<Rightarrow> string" where
  "LATEST_LAUNCH_CONTROL_BUILD_FMT branch target = branch @ ''/'' @ target @ ''/LATEST''"

text \<open>
  \<^verbatim>\<open>s.endswith(suffix)\<close> of Python: the last \<open>length suffix\<close> characters of \<open>s\<close> are
  compared with \<open>suffix\<close>; a string shorter than the suffix does not end with it.
\<close>

definition endswith :: "string \<Rightarrow> string \<Rightarrow> bool" where
  "endswith s suf = (length suf \<le> length s \<and> drop (length s - length suf) s = suf)"

definition SectionName :: "string \<Rightarrow> string" where
  "SectionName keyword = keyword @ SECTION_SUFFIX"

definition HonoredSection :: "string \<Rightarrow> bool" where
  "HonoredSection section = endswith section SECTION_SUFFIX"

definition BuildName :: "pyval \<Rightarrow> pyval \<Rightarrow> pyval \<Rightarrow> pyval \<Rightarrow> string" where
  "BuildName board type milestone manifest =
     py_str board @ ''-'' @ py_str type @ ''/R'' @ py_str milestone @ ''-'' @ py_str manifest"

section \<open>The class BaseEvent\<close>

subsection \<open>Exceptions\<close>

text \<open>
  A call either returns or raises. The exceptions that matter here are the
  \<^verbatim>\<open>KeyError\<close> of \<^verbatim>\<open>set.remove\<close> on an absent element, the
  \<^verbatim>\<open>NotImplementedError\<close> of the abstract methods, and whatever a collaborator
  (a task, a devserver) raises, identified by a name. A call that may raise returns
  \<open>exn + 'a\<close>, with \<open>Inl\<close> for the exception.
\<close>

datatype exn = KeyError | NotImplementedError | External string

subsection \<open>The event object\<close>

text \<open>
  The four attributes \<^verbatim>\<open>_keyword\<close>, \<^verbatim>\<open>_mv\<close>, \<^verbatim>\<open>_tasks\<close> and \<^verbatim>\<open>_always_handle\<close>.
  \<open>'t\<close> is the type of task descriptors: two tasks that Python's \<^verbatim>\<open>__eq__\<close> and
  \<^verbatim>\<open>__hash__\<close> of the (external) class Task identify are the same value of \<open>'t\<close>,
  so that the Python set of tasks is a set over \<open>'t\<close>. \<open>'m\<close> is the type of the
  ManifestVersions handle, which this class only stores and passes on.
\<close>

record ('t, 'm) BaseEvent =
  keyword :: string
  mv :: 'm
  tasks :: "'t set"
  always_handle :: bool

definition BaseEvent_init :: "string \<Rightarrow> 'm \<Rightarrow> bool \<Rightarrow> ('t, 'm) BaseEvent" where
  "BaseEvent_init k manifest_versions ah =
     \<lparr>keyword = k, mv = manifest_versions, tasks = {}, always_handle = ah\<rparr>"

text \<open>
  The setter of the property \<^verbatim>\<open>tasks\<close>: \<^verbatim>\<open>self._tasks = set(iterable_of_tasks)\<close>. The
  iterable is given by the sequence of elements it yields.
\<close>

definition tasks_setter :: "('t, 'm) BaseEvent \<Rightarrow> 't list \<Rightarrow> ('t, 'm) BaseEvent" where
  "tasks_setter self iterable_of_tasks = self\<lparr>tasks := set iterable_of_tasks\<rparr>"

text \<open>
  Iterating over a Python set (\<^verbatim>\<open>list(self.tasks)\<close>, \<^verbatim>\<open>for task in self._tasks\<close>,
  \<^verbatim>\<open>set(to_merge.tasks)\<close>) yields every element once, in an order the language does
  not fix. The enumeration is the parameter \<open>to_list\<close> of the functions below, and
  \<open>enumerates to_list S\<close> says that it behaves like Python's on the set \<open>S\<close>.
\<close>

definition enumerates :: "('t set \<Rightarrow> 't list) \<Rightarrow> 't set \<Rightarrow> bool" where
  "enumerates to_list S = (set (to_list S) = S \<and> distinct (to_list S))"

text \<open>
  \<^verbatim>\<open>Merge\<close>: \<^verbatim>\<open>self.tasks = to_merge.tasks\<close> goes through the setter, which builds a new
  set from the elements of the other event's set; the other two attributes are
  copied.
\<close>

definition Merge ::
  "('t set \<Rightarrow> 't list) \<Rightarrow> ('t, 'm) BaseEvent \<Rightarrow> ('t, 'm) BaseEvent \<Rightarrow> ('t, 'm) BaseEvent" where
  "Merge to_list self to_merge =
     (tasks_setter self (to_list (tasks to_merge)))
       \<lparr>mv := mv to_merge, always_handle := always_handle to_merge\<rparr>"

definition ShouldHandle :: "('t, 'm) BaseEvent \<Rightarrow> bool" where
  "ShouldHandle self = always_handle self"

text \<open>\<^verbatim>\<open>FilterTasks\<close> of the base class: \<^verbatim>\<open>list(self.tasks)\<close>. Subclasses override it.\<close>

definition FilterTasks :: "('t set \<Rightarrow> 't list) \<Rightarrow> ('t, 'm) BaseEvent \<Rightarrow> 'w \<Rightarrow> 't list" where
  "FilterTasks to_list self w = to_list (tasks self)"

subsection \<open>The collaborators of Handle\<close>

text \<open>
  The class Task is not part of this module; \<^verbatim>\<open>Handle\<close> calls three of its methods
  and \<^verbatim>\<open>launch_control_branches_targets\<close> reads two of its attributes. They are the
  fields of \<open>task_class\<close>. A method call may raise, may depend on the state of the
  outside world (the lab, the scheduler, the clock) and may change it: \<open>'w\<close> is that
  state, \<open>'s\<close> the type of the scheduler handle. The Boolean a method returns is the
  truth value Python's \<^verbatim>\<open>if\<close> gives to what it returns.
\<close>

type_synonym branch_builds = "(string \<times> string list) list"

record ('t, 's, 'm, 'w) task_class =
  AvailableHosts :: "'t \<Rightarrow> 's \<Rightarrow> string \<Rightarrow> 'w \<Rightarrow> (exn + bool) \<times> 'w"
  ShouldHaveAvailableHosts :: "'t \<Rightarrow> 'w \<Rightarrow> (exn + bool) \<times> 'w"
  Run :: "'t \<Rightarrow> 's \<Rightarrow> branch_builds \<Rightarrow> string \<Rightarrow> bool \<Rightarrow> 'm \<Rightarrow> string list option \<Rightarrow> 'w
            \<Rightarrow> (exn + bool) \<times> 'w"
  launch_control_branches :: "'t \<Rightarrow> string list"
  launch_control_targets :: "'t \<Rightarrow> string list"

text \<open>
  What \<^verbatim>\<open>Handle\<close> does to the outside, in the order it does it: the two log lines
  and the three method calls, each call with its arguments and with what it
  returned or raised.
\<close>

datatype ('t, 's, 'm) effect =
    LoggingInfo string string
  | AvailableHostsCall 't 's string "exn + bool"
  | RunCall 't 's branch_builds string bool 'm "string list option" "exn + bool"
  | ShouldHaveAvailableHostsCall 't "exn + bool"
  | LoggingWarning 't string

text \<open>
  The state a method of the event runs in: the event object, the outside world and
  the effects performed so far (\<open>'e\<close> is the type of effects). A method returns its
  outcome together with the state it leaves; when it raises, the state is the one at
  the raise.
\<close>

record ('t, 'm, 'w, 'e) state =
  event :: "('t, 'm) BaseEvent"
  world :: 'w
  trace :: "'e list"

text \<open>The effects performed between an earlier state and a later one.\<close>

definition performed :: "('t, 'm, 'w, 'e) state \<Rightarrow> ('t, 'm, 'w, 'e) state \<Rightarrow> 'e list" where
  "performed st st' = drop (length (trace st)) (trace st')"

definition logging_info ::
  "string \<Rightarrow> string \<Rightarrow> ('t, 'm, 'w, ('t, 's, 'm) effect) state \<Rightarrow> ('t, 'm, 'w, ('t, 's, 'm) effect) state" where
  "logging_info k board st = st\<lparr>trace := trace st @ [LoggingInfo k board]\<rparr>"

definition logging_warning ::
  "'t \<Rightarrow> string \<Rightarrow> ('t, 'm, 'w, ('t, 's, 'm) effect) state \<Rightarrow> ('t, 'm, 'w, ('t, 's, 'm) effect) state" where
  "logging_warning task board st = st\<lparr>trace := trace st @ [LoggingWarning task board]\<rparr>"

definition call_AvailableHosts ::
  "('t, 's, 'm, 'w) task_class \<Rightarrow> 't \<Rightarrow> 's \<Rightarrow> string \<Rightarrow> ('t, 'm, 'w, ('t, 's, 'm) effect) state
     \<Rightarrow> (exn + bool) \<times> ('t, 'm, 'w, ('t, 's, 'm) effect) state" where
  "call_AvailableHosts T task scheduler board st =
     (case AvailableHosts T task scheduler board (world st) of
        (r, w) \<Rightarrow> (r, st\<lparr>world := w, trace := trace st @ [AvailableHostsCall task scheduler board r]\<rparr>))"

definition call_ShouldHaveAvailableHosts ::
  "('t, 's, 'm, 'w) task_class \<Rightarrow> 't \<Rightarrow> ('t, 'm, 'w, ('t, 's, 'm) effect) state
     \<Rightarrow> (exn + bool) \<times> ('t, 'm, 'w, ('t, 's, 'm) effect) state" where
  "call_ShouldHaveAvailableHosts T task st =
     (case ShouldHaveAvailableHosts T task (world st) of
        (r, w) \<Rightarrow> (r, st\<lparr>world := w, trace := trace st @ [ShouldHaveAvailableHostsCall task r]\<rparr>))"

definition call_Run ::
  "('t, 's, 'm, 'w) task_class \<Rightarrow> 't \<Rightarrow> 's \<Rightarrow> branch_builds \<Rightarrow> string \<Rightarrow> bool \<Rightarrow> 'm
     \<Rightarrow> string list option \<Rightarrow> ('t, 'm, 'w, ('t, 's, 'm) effect) state
     \<Rightarrow> (exn + bool) \<times> ('t, 'm, 'w, ('t, 's, 'm) effect) state" where
  "call_Run T task scheduler bb board force m lcb st =
     (case Run T task scheduler bb board force m lcb (world st) of
        (r, w) \<Rightarrow>
          (r, st\<lparr>world := w,
                 trace := trace st @ [RunCall task scheduler bb board force m lcb r]\<rparr>))"

text \<open>\<^verbatim>\<open>self._tasks.remove(task)\<close>: a \<^verbatim>\<open>KeyError\<close> when the task is not in the set.\<close>

definition tasks_remove ::
  "'t \<Rightarrow> ('t, 'm, 'w, 'e) state \<Rightarrow> exn option \<times> ('t, 'm, 'w, 'e) state" where
  "tasks_remove task st =
     (if task \<in> tasks (event st)
      then (None, st\<lparr>event := (event st)\<lparr>tasks := tasks (event st) - {task}\<rparr>\<rparr>)
      else (Some KeyError, st))"

subsection \<open>Handle\<close>

text \<open>
  The body of the loop of \<^verbatim>\<open>Handle\<close> for one task. The outcome is \<open>None\<close> when the
  body completes and \<open>Some e\<close> when the exception \<open>e\<close> leaves it; nothing in
  \<^verbatim>\<open>Handle\<close> catches an exception.
\<close>

definition handle_task ::
  "('t, 's, 'm, 'w) task_class \<Rightarrow> 's \<Rightarrow> branch_builds \<Rightarrow> string \<Rightarrow> bool \<Rightarrow> string list option
     \<Rightarrow> 't \<Rightarrow> ('t, 'm, 'w, ('t, 's, 'm) effect) state
     \<Rightarrow> exn option \<times> ('t, 'm, 'w, ('t, 's, 'm) effect) state" where
  "handle_task T scheduler bb board force lcb task st =
     (case call_AvailableHosts T task scheduler board st of
        (Inl e, st1) \<Rightarrow> (Some e, st1)
      | (Inr hosts, st1) \<Rightarrow>
          if hosts then
            (case call_Run T task scheduler bb board force (mv (event st1)) lcb st1 of
               (Inl e, st2) \<Rightarrow> (Some e, st2)
             | (Inr keep, st2) \<Rightarrow> if \<not> keep then tasks_remove task st2 else (None, st2))
          else
            (case call_ShouldHaveAvailableHosts T task st1 of
               (Inl e, st2) \<Rightarrow> (Some e, st2)
             | (Inr should, st2) \<Rightarrow>
                 if should then (None, logging_warning task board st2) else (None, st2)))"

text \<open>\<^verbatim>\<open>for task in tasks:\<close> over the candidate list; an exception ends the loop.\<close>

fun handle_loop ::
  "('t, 's, 'm, 'w) task_class \<Rightarrow> 's \<Rightarrow> branch_builds \<Rightarrow> string \<Rightarrow> bool \<Rightarrow> string list option
     \<Rightarrow> 't list \<Rightarrow> ('t, 'm, 'w, ('t, 's, 'm) effect) state
     \<Rightarrow> exn option \<times> ('t, 'm, 'w, ('t, 's, 'm) effect) state" where
  "handle_loop T scheduler bb board force lcb [] st = (None, st)"
| "handle_loop T scheduler bb board force lcb (task # rest) st =
     (case handle_task T scheduler bb board force lcb task st of
        (Some e, st1) \<Rightarrow> (Some e, st1)
      | (None, st1) \<Rightarrow> handle_loop T scheduler bb board force lcb rest st1)"

text \<open>
  \<^verbatim>\<open>tasks = list(self.tasks) if force else self.FilterTasks()\<close>. The call
  \<^verbatim>\<open>self.FilterTasks()\<close> is dispatched on the class of the event, so the method is the
  parameter \<open>filter_tasks\<close>; for the base class it is \<open>FilterTasks to_list\<close>.
\<close>

definition candidates ::
  "('t set \<Rightarrow> 't list) \<Rightarrow> (('t, 'm) BaseEvent \<Rightarrow> 'w \<Rightarrow> 't list) \<Rightarrow> bool
     \<Rightarrow> ('t, 'm, 'w, 'e) state \<Rightarrow> 't list" where
  "candidates to_list filter_tasks force st =
     (if force then to_list (tasks (event st)) else filter_tasks (event st) (world st))"

definition Handle ::
  "('t set \<Rightarrow> 't list) \<Rightarrow> (('t, 'm) BaseEvent \<Rightarrow> 'w \<Rightarrow> 't list) \<Rightarrow> ('t, 's, 'm, 'w) task_class
     \<Rightarrow> 's \<Rightarrow> branch_builds \<Rightarrow> string \<Rightarrow> bool \<Rightarrow> string list option
     \<Rightarrow> ('t, 'm, 'w, ('t, 's, 'm) effect) state
     \<Rightarrow> exn option \<times> ('t, 'm, 'w, ('t, 's, 'm) effect) state" where
  "Handle to_list filter_tasks T scheduler branch_builds board force launch_control_builds st =
     (let st0 = logging_info (keyword (event st)) board st;
          tasks = candidates to_list filter_tasks force st0
      in handle_loop T scheduler branch_builds board force launch_control_builds tasks st0)"

text \<open>
  Readings of a list of effects: the tasks whose \<^verbatim>\<open>AvailableHosts\<close> was called, in
  order; the tasks one of whose \<^verbatim>\<open>Run\<close> calls returned false ("do not keep");
  the task an effect is about.
\<close>

fun asked :: "('t, 's, 'm) effect list \<Rightarrow> 't list" where
  "asked [] = []"
| "asked (AvailableHostsCall t s b r # es) = t # asked es"
| "asked (e # es) = asked es"

fun not_kept :: "('t, 's, 'm) effect list \<Rightarrow> 't set" where
  "not_kept [] = {}"
| "not_kept (RunCall t s bb b f m l r # es) =
     (if r = Inr False then insert t (not_kept es) else not_kept es)"
| "not_kept (e # es) = not_kept es"

fun task_of :: "('t, 's, 'm) effect \<Rightarrow> 't option" where
  "task_of (LoggingInfo k b) = None"
| "task_of (AvailableHostsCall t s b r) = Some t"
| "task_of (RunCall t s bb b f m l r) = Some t"
| "task_of (ShouldHaveAvailableHostsCall t r) = Some t"
| "task_of (LoggingWarning t b) = Some t"

subsection \<open>The latest Launch Control builds\<close>

text \<open>
  The property \<^verbatim>\<open>launch_control_branches_targets\<close> builds a dictionary from branch
  to list of targets. The dictionary is an association list with one pair per key,
  in the order the keys were first inserted. That is the order in which \<^verbatim>\<open>items()\<close>
  is taken to yield the pairs below (Python 3.7 and later guarantee it; earlier
  versions leave the order open).

  \<^verbatim>\<open>branches.setdefault(branch, []).extend(targets)\<close>: the list under \<open>branch\<close>, created
  empty when the key is new, grows by \<open>targets\<close> at its end.
\<close>

fun setdefault_extend ::
  "string \<Rightarrow> string list \<Rightarrow> (string \<times> string list) list \<Rightarrow> (string \<times> string list) list" where
  "setdefault_extend branch targets [] = [(branch, [] @ targets)]"
| "setdefault_extend branch targets ((k, v) # d) =
     (if k = branch then (k, v @ targets) # d else (k, v) # setdefault_extend branch targets d)"

definition launch_control_branches_targets ::
  "('t set \<Rightarrow> 't list) \<Rightarrow> ('t, 's, 'm, 'w) task_class \<Rightarrow> ('t, 'm) BaseEvent
     \<Rightarrow> (string \<times> string list) list" where
  "launch_control_branches_targets to_list T self =
     foldl (\<lambda>branches task.
              foldl (\<lambda>branches branch. setdefault_extend branch (launch_control_targets T task) branches)
                branches (launch_control_branches T task))
       [] (to_list (tasks self))"

text \<open>
  \<^verbatim>\<open>_LatestLaunchControlBuilds\<close> uses four things of other modules, which are the fields
  of \<open>launch_control\<close>: the table \<^verbatim>\<open>utils.ANDROID_BOARD_TO_TARGET_MAP\<close>, the class method
  \<^verbatim>\<open>dev_server.AndroidBuildServer.random()\<close> that picks a devserver (of type \<open>'d\<close>), the
  method \<^verbatim>\<open>translate\<close> of a devserver, and \<^verbatim>\<open>utils.parse_launch_control_target\<close>, which
  returns a pair whose first component is the board part of a target, or \<^verbatim>\<open>None\<close>.
  The two calls to the devserver side may raise and may change the outside world.
\<close>

record ('d, 'w) launch_control =
  ANDROID_BOARD_TO_TARGET_MAP :: "string \<rightharpoonup> string"
  random_devserver :: "'w \<Rightarrow> (exn + 'd) \<times> 'w"
  translate :: "'d \<Rightarrow> string \<Rightarrow> 'w \<Rightarrow> (exn + string) \<times> 'w"
  parse_launch_control_target :: "string \<Rightarrow> string option \<times> string option"

datatype 'd lookup =
    RandomCall "exn + 'd"
  | TranslateCall 'd string "exn + string"

definition call_random ::
  "('d, 'w) launch_control \<Rightarrow> ('t, 'm, 'w, 'd lookup) state
     \<Rightarrow> (exn + 'd) \<times> ('t, 'm, 'w, 'd lookup) state" where
  "call_random L st =
     (case random_devserver L (world st) of
        (r, w) \<Rightarrow> (r, st\<lparr>world := w, trace := trace st @ [RandomCall r]\<rparr>))"

definition call_translate ::
  "('d, 'w) launch_control \<Rightarrow> 'd \<Rightarrow> string \<Rightarrow> ('t, 'm, 'w, 'd lookup) state
     \<Rightarrow> (exn + string) \<times> ('t, 'm, 'w, 'd lookup) state" where
  "call_translate L devserver latest_build st =
     (case translate L devserver latest_build (world st) of
        (r, w) \<Rightarrow> (r, st\<lparr>world := w, trace := trace st @ [TranslateCall devserver latest_build r]\<rparr>))"

text \<open>The inner loop, \<^verbatim>\<open>for target in match_targets\<close>; \<open>builds\<close> is the list built so far.\<close>

fun translate_targets ::
  "('d, 'w) launch_control \<Rightarrow> 'd \<Rightarrow> string \<Rightarrow> string list \<Rightarrow> string list
     \<Rightarrow> ('t, 'm, 'w, 'd lookup) state \<Rightarrow> (exn + string list) \<times> ('t, 'm, 'w, 'd lookup) state" where
  "translate_targets L devserver branch [] builds st = (Inr builds, st)"
| "translate_targets L devserver branch (target # rest) builds st =
     (let latest_build = LATEST_LAUNCH_CONTROL_BUILD_FMT branch target
      in case call_translate L devserver latest_build st of
           (Inl e, st1) \<Rightarrow> (Inl e, st1)
         | (Inr b, st1) \<Rightarrow> translate_targets L devserver branch rest (builds @ [b]) st1)"

text \<open>
  The outer loop, \<^verbatim>\<open>for branch, targets in ....items()\<close>. The test
  \<^verbatim>\<open>board == utils.parse_launch_control_target(t)[0]\<close> compares the board with the first
  component of the parse, which is no string when the target does not parse.
\<close>

fun translate_branches ::
  "('d, 'w) launch_control \<Rightarrow> 'd \<Rightarrow> string \<Rightarrow> (string \<times> string list) list \<Rightarrow> string list
     \<Rightarrow> ('t, 'm, 'w, 'd lookup) state \<Rightarrow> (exn + string list) \<times> ('t, 'm, 'w, 'd lookup) state" where
  "translate_branches L devserver board [] builds st = (Inr builds, st)"
| "translate_branches L devserver board ((branch, targets) # items) builds st =
     (let match_targets =
            [t \<leftarrow> targets. Some board = fst (parse_launch_control_target L t)]
      in case translate_targets L devserver branch match_targets builds st of
           (Inl e, st1) \<Rightarrow> (Inl e, st1)
         | (Inr builds1, st1) \<Rightarrow> translate_branches L devserver board items builds1 st1)"

definition LatestLaunchControlBuilds ::
  "('t set \<Rightarrow> 't list) \<Rightarrow> ('t, 's, 'm, 'w) task_class \<Rightarrow> ('d, 'w) launch_control \<Rightarrow> string
     \<Rightarrow> ('t, 'm, 'w, 'd lookup) state \<Rightarrow> (exn + string list) \<times> ('t, 'm, 'w, 'd lookup) state" where
  "LatestLaunchControlBuilds to_list T L board st =
     (let board = (case ANDROID_BOARD_TO_TARGET_MAP L board of None \<Rightarrow> board | Some b \<Rightarrow> b)
      in case call_random L st of
           (Inl e, st1) \<Rightarrow> (Inl e, st1)
         | (Inr devserver, st1) \<Rightarrow>
             translate_branches L devserver board
               (launch_control_branches_targets to_list T (event st1)) [] st1)"

text \<open>
  Steps 3 and 4 of the lookup in the words of the specification, to be compared with
  the two loops above. Step 3: for every pair of the view, keep the targets whose
  board part, as parsed from the target, is the board; \<open>surviving_targets\<close> lists the
  kept targets with their branches, in the order of the view. Step 4: for every
  surviving target one query \<^verbatim>\<open><branch>/<target>/LATEST\<close> to the devserver, the answer
  appended to the result; \<open>translate_each\<close> is that single loop.
\<close>

definition surviving_targets ::
  "('d, 'w) launch_control \<Rightarrow> string \<Rightarrow> (string \<times> string list) list \<Rightarrow> (string \<times> string) list" where
  "surviving_targets L board items =
     concat (map (\<lambda>(branch, targets).
                    map (Pair branch)
                      [t \<leftarrow> targets. fst (parse_launch_control_target L t) = Some board])
               items)"

fun translate_each ::
  "('d, 'w) launch_control \<Rightarrow> 'd \<Rightarrow> (string \<times> string) list \<Rightarrow> string list
     \<Rightarrow> ('t, 'm, 'w, 'd lookup) state \<Rightarrow> (exn + string list) \<times> ('t, 'm, 'w, 'd lookup) state" where
  "translate_each L devserver [] builds st = (Inr builds, st)"
| "translate_each L devserver ((branch, target) # rest) builds st =
     (case call_translate L devserver (branch @ ''/'' @ target @ ''/LATEST'') st of
        (Inl e, st1) \<Rightarrow> (Inl e, st1)
      | (Inr b, st1) \<Rightarrow> translate_each L devserver rest (builds @ [b]) st1)"

section \<open>A concrete instance\<close>

text \<open>
  A small instance on which the functions above can be evaluated. Tasks are numbered;
  the outside world counts the calls made to it.
  \<^item> Tasks 1 and 2 have hosts and are one-shot: \<^verbatim>\<open>Run\<close> returns false.
  \<^item> Task 3 has no hosts and does not require them.
  \<^item> Task 4 has hosts and its \<^verbatim>\<open>Run\<close> raises.
  \<^item> Task 5 has hosts and is kept: \<^verbatim>\<open>Run\<close> returns true.
  \<^item> Task 6 has no hosts and requires them.
  For Launch Control, task 1 builds \<^verbatim>\<open>shamu-eng\<close> and task 2 \<^verbatim>\<open>shamu-userdebug\<close> on the
  branch \<^verbatim>\<open>git_mnc_release\<close>; every other task builds \<^verbatim>\<open>hammerhead-userdebug\<close>, task 3
  on two branches.
  Sets of numbers are enumerated in increasing order (\<open>sorted_list_of_set\<close>).
\<close>

definition example_tasks :: "(nat, unit, unit, nat) task_class" where
  "example_tasks =
     \<lparr>AvailableHosts = (\<lambda>t s b w. (Inr (t \<noteq> 3 \<and> t \<noteq> 6), w + 1)),
      ShouldHaveAvailableHosts = (\<lambda>t w. (Inr (t = 6), w)),
      Run = (\<lambda>t s bb b f m l w. (if t = 4 then Inl (External ''boom'') else Inr (t = 5), w + 1)),
      launch_control_branches =
        (\<lambda>t. if t = 3 then [''git_nyc_release'', ''git_mnc_release''] else [''git_mnc_release'']),
      launch_control_targets =
        (\<lambda>t. if t = 1 then [''shamu-eng''] else if t = 2 then [''shamu-userdebug'']
             else [''hammerhead-userdebug''])\<rparr>"

definition example_event :: "nat list \<Rightarrow> (nat, unit) BaseEvent" where
  "example_event xs = tasks_setter (BaseEvent_init ''nightly'' () False) xs"

definition example_state :: "nat list \<Rightarrow> (nat, unit, nat, (nat, unit, unit) effect) state" where
  "example_state xs = \<lparr>event = example_event xs, world = 0, trace = []\<rparr>"

definition example_branch_builds :: branch_builds where
  "example_branch_builds = [(''R18'', [''x86-alex-release/R18-1655.0.0''])]"

text \<open>\<^verbatim>\<open>Handle\<close> of the base class on the event with the given tasks, for board x86-alex.\<close>

definition example_Handle ::
  "bool \<Rightarrow> nat list \<Rightarrow> exn option \<times> (nat, unit, nat, (nat, unit, unit) effect) state" where
  "example_Handle force xs =
     Handle sorted_list_of_set (FilterTasks sorted_list_of_set) example_tasks ()
       example_branch_builds ''x86-alex'' force None (example_state xs)"

text \<open>
  The state in which a forced \<^verbatim>\<open>Handle\<close> on the tasks 1, 4 and 5 has dealt with
  task 1 and turns to task 4.
\<close>

definition example_after_task_1 :: "(nat, unit, nat, (nat, unit, unit) effect) state" where
  "example_after_task_1 =
     \<lparr>event = \<lparr>keyword = ''nightly'', mv = (), tasks = {4, 5}, always_handle = False\<rparr>,
      world = 2,
      trace = [LoggingInfo ''nightly'' ''x86-alex'',
               AvailableHostsCall 1 () ''x86-alex'' (Inr True),
               RunCall 1 () example_branch_builds ''x86-alex'' True () None (Inr False)]\<rparr>"

text \<open>A \<^verbatim>\<open>FilterTasks\<close> of a subclass: only task 5 may run now.\<close>

definition example_filter :: "(nat, unit) BaseEvent \<Rightarrow> nat \<Rightarrow> nat list" where
  "example_filter self w = [t \<leftarrow> sorted_list_of_set (tasks self). t = 5]"

text \<open>
  A devserver side with two servers, 0 and 1, picked by the parity of the calls made
  so far; a latest build resolves to build 123 of its branch and target.
\<close>

definition example_launch_control :: "(nat, nat) launch_control" where
  "example_launch_control =
     \<lparr>ANDROID_BOARD_TO_TARGET_MAP = [''bat_land'' \<mapsto> ''bat''],
      random_devserver = (\<lambda>w. (Inr (w mod 2), w + 1)),
      translate = (\<lambda>d latest w. (Inr (take (length latest - 6) latest @ ''123''), w + 1)),
      parse_launch_control_target =
        (\<lambda>t. if t = ''shamu-eng'' then (Some ''shamu'', Some ''eng'')
             else if t = ''shamu-userdebug'' then (Some ''shamu'', Some ''userdebug'')
             else if t = ''hammerhead-userdebug'' then (Some ''hammerhead'', Some ''userdebug'')
             else (None, None))\<rparr>"

definition example_lookup_state :: "nat list \<Rightarrow> (nat, unit, nat, nat lookup) state" where
  "example_lookup_state xs = \<lparr>event = example_event xs, world = 0, trace = []\<rparr>"

section \<open>Properties of the module-level helpers\<close>

lemma endswith_iff_suffix: "endswith s suf \<longleftrightarrow> suffix suf s"
proof
  assume "endswith s suf"
  then have "drop (length s - length suf) s = suf"
    by (simp add: endswith_def)
  then have "s = take (length s - length suf) s @ suf"
    by (metis append_take_drop_id)
  then show "suffix suf s"
    by (rule suffixI)
next
  assume "suffix suf s"
  then obtain p where "s = p @ suf"
    by (auto simp: suffix_def)
  then show "endswith s suf"
    by (simp add: endswith_def)
qed

text \<open>
  Claim C8. \<^verbatim>\<open>BuildName(board, type, milestone, manifest)\<close> is the string
  \<^verbatim>\<open><board>-<type>/R<milestone>-<manifest>\<close>: the four arguments, each converted by
  \<^verbatim>\<open>str()\<close> and nothing else (no argument is inspected or rejected), joined by the
  fixed separators. On string arguments the conversion is the identity, and
  \<^verbatim>\<open>BuildName("x86-alex", "release", 20, "2015.0.0")\<close> is
  \<^verbatim>\<open>"x86-alex-release/R20-2015.0.0"\<close>.
\<close>

theorem BuildName_format:
  "BuildName board type milestone manifest =
     concat [py_str board, ''-'', py_str type, ''/R'', py_str milestone, ''-'', py_str manifest]
   \<and> BuildName (PyStr b) (PyStr t) (PyStr m) (PyStr v) = b @ ''-'' @ t @ ''/R'' @ m @ ''-'' @ v
   \<and> BuildName (PyStr ''x86-alex'') (PyStr ''release'') (PyInt 20) (PyStr ''2015.0.0'')
       = ''x86-alex-release/R20-2015.0.0''"
  by (simp add: BuildName_def str_int_def digit_char_def)

text \<open>
  Claim C9. \<^verbatim>\<open>SectionName(k)\<close> is \<open>k\<close> followed by the suffix \<^verbatim>\<open>_params\<close>;
  \<^verbatim>\<open>HonoredSection(s)\<close> is true exactly when \<open>s\<close> ends with that suffix, that is when
  \<open>s\<close> is some prefix followed by the suffix. In particular
  \<^verbatim>\<open>SectionName("nightly") = "nightly_params"\<close>, \<^verbatim>\<open>HonoredSection("nightly_params")\<close>
  holds and \<^verbatim>\<open>HonoredSection("nightly")\<close> does not.
\<close>

theorem SectionName_HonoredSection:
  "SectionName k = k @ ''_params''
   \<and> (HonoredSection s \<longleftrightarrow> (\<exists>p. s = p @ ''_params''))
   \<and> SectionName ''nightly'' = ''nightly_params''
   \<and> HonoredSection ''nightly_params''
   \<and> \<not> HonoredSection ''nightly''"
proof -
  have a: "SectionName k = k @ ''_params''"
    by (simp add: SectionName_def SECTION_SUFFIX_def)
  have b: "HonoredSection s \<longleftrightarrow> (\<exists>p. s = p @ ''_params'')"
    unfolding HonoredSection_def SECTION_SUFFIX_def endswith_iff_suffix suffix_def ..
  have c: "SectionName ''nightly'' = ''nightly_params''"
    by (simp add: SectionName_def SECTION_SUFFIX_def)
  have d: "HonoredSection ''nightly_params''"
    by (simp add: HonoredSection_def SECTION_SUFFIX_def endswith_def)
  have e: "\<not> HonoredSection ''nightly''"
    by (simp add: HonoredSection_def SECTION_SUFFIX_def endswith_def)
  from a b c d e show ?thesis
    by blast
qed

section \<open>Properties of the event object\<close>

text \<open>
  Claim C2. After \<^verbatim>\<open>self.Merge(other)\<close>, whatever the state of \<open>self\<close> was, the keyword
  of \<open>self\<close> is what it was before the call, and the task set, the ManifestVersions
  handle and the always-handle flag of \<open>self\<close> are those of \<open>other\<close>. The task set is
  rebuilt from an iteration over the other event's set, so the statement needs what
  Python guarantees of that iteration: it yields exactly the elements of the set.
\<close>

theorem Merge_replaces:
  assumes "set (to_list (tasks to_merge)) = tasks to_merge"
  shows "keyword (Merge to_list self to_merge) = keyword self
       \<and> tasks (Merge to_list self to_merge) = tasks to_merge
       \<and> mv (Merge to_list self to_merge) = mv to_merge
       \<and> always_handle (Merge to_list self to_merge) = always_handle to_merge"
  using assms by (simp add: Merge_def tasks_setter_def)

theorem Merge_replaces_witness:
  "set (sorted_list_of_set (tasks (example_event [5, 1, 5]))) = tasks (example_event [5, 1, 5])
   \<and> keyword (Merge sorted_list_of_set (BaseEvent_init ''weekly'' () True) (example_event [5, 1, 5]))
       = keyword (BaseEvent_init ''weekly'' () True :: (nat, unit) BaseEvent)
   \<and> tasks (Merge sorted_list_of_set (BaseEvent_init ''weekly'' () True) (example_event [5, 1, 5]))
       = tasks (example_event [5, 1, 5])
   \<and> always_handle (Merge sorted_list_of_set (BaseEvent_init ''weekly'' () True) (example_event [5, 1, 5]))
       = always_handle (example_event [5, 1, 5])
   \<and> tasks (example_event [5, 1, 5]) = {1, 5}
   \<and> always_handle (example_event [5, 1, 5]) = False"
proof -
  have h: "set (sorted_list_of_set (tasks (example_event [5, 1, 5]))) = tasks (example_event [5, 1, 5])"
    by code_simp
  have v: "tasks (example_event [5, 1, 5]) = {1, 5}"
    by code_simp
  have f: "always_handle (example_event [5, 1, 5]) = False"
    by code_simp
  from h v f
    Merge_replaces [where to_list = sorted_list_of_set and to_merge = "example_event [5, 1, 5]"
      and self = "BaseEvent_init ''weekly'' () True", OF h]
  show ?thesis
    by blast
qed

text \<open>
  Claim C4. Assigning an iterable of tasks through the setter yields the set of the
  tasks it contains, whose size is the number of distinct tasks of the iterable
  (\<open>length (remdups xs)\<close>); an iteration over the resulting set meets no task twice and
  has that length. The same holds after construction (the set is empty) and after
  \<^verbatim>\<open>Merge\<close>, which assigns the tasks of the other event through the same setter.
\<close>

theorem tasks_setter_deduplicates:
  "tasks (tasks_setter (self :: ('t, 'm) BaseEvent) xs) = set xs
   \<and> card (tasks (tasks_setter self xs)) = length (remdups xs)
   \<and> card (tasks (BaseEvent_init k m ah :: ('t, 'm) BaseEvent)) = 0
   \<and> card (tasks (Merge to_list self to_merge)) = length (remdups (to_list (tasks to_merge)))
   \<and> (enumerates to_list (tasks (tasks_setter self xs)) \<longrightarrow>
        distinct (to_list (tasks (tasks_setter self xs)))
        \<and> length (to_list (tasks (tasks_setter self xs))) = length (remdups xs)
        \<and> card (tasks (Merge to_list other (tasks_setter self xs))) = length (remdups xs))"
proof -
  have a: "tasks (tasks_setter self xs) = set xs"
    by (simp add: tasks_setter_def)
  have b: "card (set xs) = length (remdups xs)"
    by (rule card_set)
  have c: "card (tasks (BaseEvent_init k m ah :: ('t, 'm) BaseEvent)) = 0"
    by (simp add: BaseEvent_init_def)
  have d: "card (tasks (Merge to_list self to_merge)) = length (remdups (to_list (tasks to_merge)))"
    by (simp add: Merge_def tasks_setter_def card_set)
  have e: "distinct (to_list (set xs)) \<and> length (to_list (set xs)) = length (remdups xs)
      \<and> card (tasks (Merge to_list other (tasks_setter self xs))) = length (remdups xs)"
    if "enumerates to_list (set xs)"
  proof -
    from that have s: "set (to_list (set xs)) = set xs" and dist: "distinct (to_list (set xs))"
      by (simp_all add: enumerates_def)
    from dist have "length (to_list (set xs)) = card (set (to_list (set xs)))"
      by (simp add: distinct_card)
    with s b have len: "length (to_list (set xs)) = length (remdups xs)"
      by simp
    have "card (tasks (Merge to_list other (tasks_setter self xs))) = card (set (to_list (set xs)))"
      by (simp add: Merge_def tasks_setter_def)
    with s b dist len show ?thesis by simp
  qed
  from a b c d e show ?thesis
    by simp
qed

theorem tasks_setter_deduplicates_witness:
  "enumerates sorted_list_of_set (tasks (tasks_setter (example_event []) [5, 1, 5, 1, 2]))
   \<and> distinct (sorted_list_of_set (tasks (tasks_setter (example_event []) [5, 1, 5, 1, 2])))
   \<and> length (sorted_list_of_set (tasks (tasks_setter (example_event []) [5, 1, 5, 1, 2])))
       = length (remdups [5, 1, 5, 1, 2 :: nat])
   \<and> card (tasks (tasks_setter (example_event []) [5, 1, 5, 1, 2])) = length (remdups [5, 1, 5, 1, 2 :: nat])
   \<and> length (remdups [5, 1, 5, 1, 2 :: nat]) = 3
   \<and> tasks (tasks_setter (example_event []) [5, 1, 5, 1, 2]) = {1, 2, 5}"
proof -
  have h: "enumerates sorted_list_of_set (tasks (tasks_setter (example_event []) [5, 1, 5, 1, 2]))"
    by code_simp
  have n: "length (remdups [5, 1, 5, 1, 2 :: nat]) = 3"
    by code_simp
  have v: "tasks (tasks_setter (example_event []) [5, 1, 5, 1, 2]) = {1, 2, 5}"
    by code_simp
  note t = tasks_setter_deduplicates [where self = "example_event []" and xs = "[5, 1, 5, 1, 2]"
      and to_list = sorted_list_of_set and k = "''nightly''" and m = "()" and ah = False
      and to_merge = "example_event []" and other = "example_event []"]
  from t have c: "card (tasks (tasks_setter (example_event []) [5, 1, 5, 1, 2])) = length (remdups [5, 1, 5, 1, 2 :: nat])"
    by (elim conjE)
  from t h have d: "distinct (sorted_list_of_set (tasks (tasks_setter (example_event []) [5, 1, 5, 1, 2])))
     \<and> length (sorted_list_of_set (tasks (tasks_setter (example_event []) [5, 1, 5, 1, 2])))
       = length (remdups [5, 1, 5, 1, 2 :: nat])"
    by (elim conjE impE) (assumption, intro conjI, assumption+)
  from h n v c d
  show ?thesis
    by (intro conjI) (elim conjE, assumption)+
qed

text \<open>
  Claim C5. An event constructed with \<^verbatim>\<open>always_handle=True\<close> answers true to
  \<^verbatim>\<open>ShouldHandle()\<close>, whatever its keyword, its ManifestVersions handle and its task
  set are or become: \<^verbatim>\<open>ShouldHandle\<close> of the base class reads the flag and nothing else.
\<close>

theorem ShouldHandle_always_handle:
  "ShouldHandle (BaseEvent_init k m True :: ('t, 'm) BaseEvent)
   \<and> ShouldHandle (tasks_setter (BaseEvent_init k m True) xs)
   \<and> ShouldHandle \<lparr>keyword = k', mv = m', tasks = S, always_handle = True\<rparr>
   \<and> ShouldHandle (ev\<lparr>keyword := k', mv := m', tasks := S\<rparr>) = ShouldHandle ev
   \<and> ShouldHandle ev = always_handle ev"
  by (simp add: ShouldHandle_def BaseEvent_init_def tasks_setter_def)

section \<open>Properties of Handle\<close>

subsection \<open>Effects and the frame of the loop\<close>

lemma not_kept_append: "not_kept (es @ fs) = not_kept es \<union> not_kept fs"
  by (induction es rule: not_kept.induct) auto

lemma asked_append: "asked (es @ fs) = asked es @ asked fs"
  by (induction es rule: asked.induct) auto

lemma not_kept_iff:
  "t \<in> not_kept es \<longleftrightarrow> (\<exists>s bb b f m l. RunCall t s bb b f m l (Inr False) \<in> set es)"
  by (induction es rule: not_kept.induct) (auto, blast+)

lemma performed_eq: "trace st' = trace st @ es \<Longrightarrow> performed st st' = es"
  by (simp add: performed_def)

lemma performed_append:
  assumes "trace st1 = trace st @ es1" and "trace st2 = trace st1 @ es2"
  shows "performed st st2 = es1 @ es2" and "performed st st1 = es1" and "performed st1 st2 = es2"
  using assms by (simp_all add: performed_def)

lemmas handle_task_defs =
  handle_task_def call_AvailableHosts_def call_Run_def call_ShouldHaveAvailableHosts_def
  tasks_remove_def logging_warning_def

text \<open>One pass through the body of the loop.\<close>

lemma handle_task_trace:
  assumes "handle_task T sch bb board force lcb t st = (r, st')"
  shows "trace st' = trace st @ performed st st'"
  using assms
  by (auto simp: handle_task_defs performed_def split: prod.splits sum.splits if_splits)

lemma handle_task_frame:
  assumes "handle_task T sch bb board force lcb t st = (r, st')"
  shows "tasks (event st') = tasks (event st) - not_kept (performed st st')"
    and "keyword (event st') = keyword (event st)"
    and "mv (event st') = mv (event st)"
    and "always_handle (event st') = always_handle (event st)"
  using assms
  by (auto simp: handle_task_defs performed_def split: prod.splits sum.splits if_splits)

lemma handle_task_asked:
  assumes "handle_task T sch bb board force lcb t st = (r, st')"
  shows "asked (performed st st') = [t]"
  using assms
  by (auto simp: handle_task_defs performed_def split: prod.splits sum.splits if_splits)

lemma handle_task_about:
  assumes "handle_task T sch bb board force lcb t st = (r, st')"
    and "e \<in> set (performed st st')"
  shows "task_of e = Some t"
  using assms
  by (auto simp: handle_task_defs performed_def split: prod.splits sum.splits if_splits)

lemma handle_task_RunCall:
  assumes "handle_task T sch bb board force lcb t st = (r, st')"
    and "RunCall u s bb' b f m l res \<in> set (performed st st')"
  shows "AvailableHostsCall u sch board (Inr True) \<in> set (performed st st')"
    and "s = sch \<and> bb' = bb \<and> b = board \<and> f = force \<and> m = mv (event st) \<and> l = lcb"
  using assms
  by (auto simp: handle_task_defs performed_def split: prod.splits sum.splits if_splits)

lemma handle_task_LoggingWarning:
  assumes "handle_task T sch bb board force lcb t st = (r, st')"
    and "LoggingWarning u b \<in> set (performed st st')"
  shows "ShouldHaveAvailableHostsCall u (Inr True) \<in> set (performed st st')"
    and "AvailableHostsCall u sch board (Inr False) \<in> set (performed st st')"
    and "b = board"
  using assms
  by (auto simp: handle_task_defs performed_def split: prod.splits sum.splits if_splits)

text \<open>The whole loop.\<close>

lemma handle_loop_Cons_cases:
  assumes "handle_loop T sch bb board force lcb (c # cs) st = (r, st')"
  obtains (stop) e where "handle_task T sch bb board force lcb c st = (Some e, st')" and "r = Some e"
  | (continue) st1 where "handle_task T sch bb board force lcb c st = (None, st1)"
      and "handle_loop T sch bb board force lcb cs st1 = (r, st')"
  using assms
  by (auto split: prod.splits option.splits)

lemma handle_loop_trace:
  assumes "handle_loop T sch bb board force lcb cands st = (r, st')"
  shows "trace st' = trace st @ performed st st'"
  using assms
proof (induction cands arbitrary: st)
  case Nil
  then show ?case by (simp add: performed_def)
next
  case (Cons c cs)
  from Cons.prems show ?case
  proof (cases rule: handle_loop_Cons_cases)
    case (stop e)
    then show ?thesis by (simp add: handle_task_trace)
  next
    case (continue st1)
    have a: "trace st1 = trace st @ performed st st1"
      using continue(1) by (rule handle_task_trace)
    have b: "trace st' = trace st1 @ performed st1 st'"
      using continue(2) by (rule Cons.IH)
    have "performed st st' = performed st st1 @ performed st1 st'"
      using a b by (rule performed_append(1))
    with a b show ?thesis by simp
  qed
qed

lemma handle_loop_step:
  assumes "handle_task T sch bb board force lcb c st = (None, st1)"
    and "handle_loop T sch bb board force lcb cs st1 = (r, st')"
  shows "performed st st' = performed st st1 @ performed st1 st'"
  using handle_task_trace [OF assms(1)] handle_loop_trace [OF assms(2)]
  by (rule performed_append(1))

lemma handle_loop_frame:
  assumes "handle_loop T sch bb board force lcb cands st = (r, st')"
  shows "tasks (event st') = tasks (event st) - not_kept (performed st st')
       \<and> keyword (event st') = keyword (event st)
       \<and> mv (event st') = mv (event st)
       \<and> always_handle (event st') = always_handle (event st)"
  using assms
proof (induction cands arbitrary: st)
  case Nil
  then show ?case by (simp add: performed_def)
next
  case (Cons c cs)
  from Cons.prems show ?case
  proof (cases rule: handle_loop_Cons_cases)
    case (stop e)
    then show ?thesis by (simp add: handle_task_frame)
  next
    case (continue st1)
    note step = handle_loop_step [OF continue]
    from handle_task_frame [OF continue(1)] Cons.IH [OF continue(2)] show ?thesis
      by (auto simp: step not_kept_append)
  qed
qed

lemma handle_loop_asked:
  assumes "handle_loop T sch bb board force lcb cands st = (r, st')"
  shows "prefix (asked (performed st st')) cands \<and> (r = None \<longrightarrow> asked (performed st st') = cands)"
  using assms
proof (induction cands arbitrary: st)
  case Nil
  then show ?case by (simp add: performed_def)
next
  case (Cons c cs)
  from Cons.prems show ?case
  proof (cases rule: handle_loop_Cons_cases)
    case (stop e)
    then show ?thesis by (simp add: handle_task_asked)
  next
    case (continue st1)
    note step = handle_loop_step [OF continue]
    from handle_task_asked [OF continue(1)] Cons.IH [OF continue(2)] show ?thesis
      by (simp add: step asked_append)
  qed
qed

lemma handle_loop_about:
  assumes "handle_loop T sch bb board force lcb cands st = (r, st')"
    and "e \<in> set (performed st st')"
  shows "\<exists>t \<in> set cands. task_of e = Some t"
  using assms
proof (induction cands arbitrary: st)
  case Nil
  then show ?case by (simp add: performed_def)
next
  case (Cons c cs)
  from Cons.prems(1) show ?case
  proof (cases rule: handle_loop_Cons_cases)
    case (stop e')
    with Cons.prems(2) show ?thesis by (auto dest: handle_task_about)
  next
    case (continue st1)
    note step = handle_loop_step [OF continue]
    from Cons.prems(2) step
    have "e \<in> set (performed st st1) \<or> e \<in> set (performed st1 st')" by simp
    then show ?thesis
      using handle_task_about [OF continue(1)] Cons.IH [OF continue(2)] by auto
  qed
qed

lemma handle_loop_RunCall:
  assumes "handle_loop T sch bb board force lcb cands st = (r, st')"
    and "RunCall u s bb' b f m l res \<in> set (performed st st')"
  shows "AvailableHostsCall u sch board (Inr True) \<in> set (performed st st')"
  using assms
proof (induction cands arbitrary: st)
  case Nil
  then show ?case by (simp add: performed_def)
next
  case (Cons c cs)
  from Cons.prems(1) show ?case
  proof (cases rule: handle_loop_Cons_cases)
    case (stop e')
    with Cons.prems(2) show ?thesis by (auto dest: handle_task_RunCall(1))
  next
    case (continue st1)
    note step = handle_loop_step [OF continue]
    from Cons.prems(2) step
    have "RunCall u s bb' b f m l res \<in> set (performed st st1)
        \<or> RunCall u s bb' b f m l res \<in> set (performed st1 st')" by simp
    then show ?thesis
      using handle_task_RunCall(1) [OF continue(1)] Cons.IH [OF continue(2)]
      by (auto simp: step)
  qed
qed

lemma handle_loop_LoggingWarning:
  assumes "handle_loop T sch bb board force lcb cands st = (r, st')"
    and "LoggingWarning u b \<in> set (performed st st')"
  shows "ShouldHaveAvailableHostsCall u (Inr True) \<in> set (performed st st')"
  using assms
proof (induction cands arbitrary: st)
  case Nil
  then show ?case by (simp add: performed_def)
next
  case (Cons c cs)
  from Cons.prems(1) show ?case
  proof (cases rule: handle_loop_Cons_cases)
    case (stop e')
    with Cons.prems(2) show ?thesis by (auto dest: handle_task_LoggingWarning(1))
  next
    case (continue st1)
    note step = handle_loop_step [OF continue]
    from Cons.prems(2) step
    have "LoggingWarning u b \<in> set (performed st st1)
        \<or> LoggingWarning u b \<in> set (performed st1 st')" by simp
    then show ?thesis
      using handle_task_LoggingWarning(1) [OF continue(1)] Cons.IH [OF continue(2)]
      by (auto simp: step)
  qed
qed

text \<open>Handle is the loop over the candidates, after the first log line.\<close>

lemma candidates_logging_info:
  "candidates to_list ft force (logging_info k board st) = candidates to_list ft force st"
  by (simp add: candidates_def logging_info_def)

lemma Handle_loop:
  "Handle to_list ft T sch bb board force lcb st =
     handle_loop T sch bb board force lcb (candidates to_list ft force st)
       (logging_info (keyword (event st)) board st)"
  by (simp add: Handle_def Let_def candidates_logging_info)

lemma Handle_performed:
  assumes "Handle to_list ft T sch bb board force lcb st = (r, st')"
  shows "performed st st' =
           LoggingInfo (keyword (event st)) board
             # performed (logging_info (keyword (event st)) board st) st'"
proof -
  let ?st0 = "logging_info (keyword (event st)) board st"
  have a: "trace ?st0 = trace st @ [LoggingInfo (keyword (event st)) board]"
    by (simp add: logging_info_def)
  have "handle_loop T sch bb board force lcb (candidates to_list ft force st) ?st0 = (r, st')"
    using assms by (simp add: Handle_loop)
  then have b: "trace st' = trace ?st0 @ performed ?st0 st'"
    by (rule handle_loop_trace)
  from performed_append(1) [OF a b] show ?thesis
    by simp
qed



subsection \<open>The candidate list\<close>

text \<open>
  Claim C3. With \<^verbatim>\<open>force=True\<close> the candidate list of \<^verbatim>\<open>Handle\<close> is the list of all
  tasks currently in the task set, each once, and \<^verbatim>\<open>Handle\<close> does the same whatever
  \<^verbatim>\<open>FilterTasks\<close> is; with \<^verbatim>\<open>force=False\<close> the candidate list is the list
  \<^verbatim>\<open>FilterTasks()\<close> returns. In both cases \<^verbatim>\<open>Handle\<close> is the loop over that list, and when
  it returns, the tasks whose hosts it asked for are the candidates, in order.
\<close>

theorem Handle_candidate_list:
  assumes "enumerates to_list (tasks (event st))"
  shows "Handle to_list ft T sch bb board True lcb st =
           handle_loop T sch bb board True lcb (to_list (tasks (event st)))
             (logging_info (keyword (event st)) board st)
       \<and> Handle to_list ft T sch bb board True lcb st = Handle to_list ft' T sch bb board True lcb st
       \<and> set (candidates to_list ft True st) = tasks (event st)
       \<and> distinct (candidates to_list ft True st)
       \<and> candidates to_list ft False st = ft (event st) (world st)
       \<and> Handle to_list ft T sch bb board False lcb st =
           handle_loop T sch bb board False lcb (ft (event st) (world st))
             (logging_info (keyword (event st)) board st)
       \<and> (fst (Handle to_list ft T sch bb board force lcb st) = None \<longrightarrow>
            asked (performed st (snd (Handle to_list ft T sch bb board force lcb st)))
              = candidates to_list ft force st)"
proof -
  have a: "Handle to_list g T sch bb board True lcb st =
           handle_loop T sch bb board True lcb (to_list (tasks (event st)))
             (logging_info (keyword (event st)) board st)" for g
    by (simp add: Handle_loop candidates_def)
  have b: "set (candidates to_list ft True st) = tasks (event st)
      \<and> distinct (candidates to_list ft True st)"
    using assms by (simp add: candidates_def enumerates_def)
  have c: "candidates to_list ft False st = ft (event st) (world st)"
    by (simp add: candidates_def)
  have d: "Handle to_list ft T sch bb board False lcb st =
           handle_loop T sch bb board False lcb (ft (event st) (world st))
             (logging_info (keyword (event st)) board st)"
    by (simp add: Handle_loop candidates_def)
  have e: "asked (performed st (snd (Handle to_list ft T sch bb board force lcb st)))
              = candidates to_list ft force st"
    if "fst (Handle to_list ft T sch bb board force lcb st) = None"
  proof -
    let ?st0 = "logging_info (keyword (event st)) board st"
    define st' where "st' = snd (Handle to_list ft T sch bb board force lcb st)"
    with that have h: "Handle to_list ft T sch bb board force lcb st = (None, st')"
      by (simp add: prod_eq_iff)
    then have loop: "handle_loop T sch bb board force lcb (candidates to_list ft force st) ?st0
        = (None, st')"
      by (simp add: Handle_loop)
    from handle_loop_asked [OF loop] Handle_performed [OF h] h show ?thesis
      by simp
  qed
  from a [of ft] a [of ft'] b c d e show ?thesis
    by simp
qed

theorem Handle_candidate_list_witness:
  "enumerates sorted_list_of_set (tasks (event (example_state [1, 5])))
   \<and> set (candidates sorted_list_of_set example_filter True (example_state [1, 5]))
       = tasks (event (example_state [1, 5]))
   \<and> candidates sorted_list_of_set example_filter True (example_state [1, 5]) = [1, 5]
   \<and> candidates sorted_list_of_set example_filter False (example_state [1, 5]) = [5]
   \<and> fst (Handle sorted_list_of_set example_filter example_tasks () example_branch_builds
             ''x86-alex'' True None (example_state [1, 5])) = None
   \<and> asked (performed (example_state [1, 5])
        (snd (Handle sorted_list_of_set example_filter example_tasks () example_branch_builds
                ''x86-alex'' True None (example_state [1, 5]))))
       = candidates sorted_list_of_set example_filter True (example_state [1, 5])"
proof -
  have h: "enumerates sorted_list_of_set (tasks (event (example_state [1, 5])))"
    by code_simp
  have r: "fst (Handle sorted_list_of_set example_filter example_tasks () example_branch_builds
             ''x86-alex'' True None (example_state [1, 5])) = None"
    by code_simp
  have v1: "candidates sorted_list_of_set example_filter True (example_state [1, 5]) = [1, 5]"
    by code_simp
  have v2: "candidates sorted_list_of_set example_filter False (example_state [1, 5]) = [5]"
    by code_simp
  note t = Handle_candidate_list [OF h, where ft = example_filter and ft' = example_filter
      and T = example_tasks and sch = "()" and bb = example_branch_builds and board = "''x86-alex''"
      and lcb = None and force = True]
  from t have a: "set (candidates sorted_list_of_set example_filter True (example_state [1, 5]))
       = tasks (event (example_state [1, 5]))"
    by (elim conjE)
  from t r have b: "asked (performed (example_state [1, 5])
        (snd (Handle sorted_list_of_set example_filter example_tasks () example_branch_builds
                ''x86-alex'' True None (example_state [1, 5]))))
       = candidates sorted_list_of_set example_filter True (example_state [1, 5])"
    by (elim conjE impE)
  from h r v1 v2 a b show ?thesis
    by (intro conjI) assumption+
qed

subsection \<open>Tasks that are not kept\<close>




subsection \<open>An exception from Run\<close>

text \<open>
  Claim C7. Let the candidate list be \<open>pre @ t # post\<close>, let the loop have dealt with the
  candidates \<open>pre\<close> without an exception, and let \<open>t\<close> report hosts and its \<^verbatim>\<open>Run\<close> raise
  \<open>e\<close>. Then \<open>e\<close> leaves \<^verbatim>\<open>Handle\<close>, and the state \<^verbatim>\<open>Handle\<close> leaves is the state right
  after the failing call: the last effect is that call, the event (its task set
  included) is as the candidates \<open>pre\<close> left it, and the tasks whose hosts were asked
  for are those of \<open>pre\<close> and \<open>t\<close>. No method of a task of \<open>post\<close> is called on its
  account and the task set is not modified for it.
\<close>

theorem Handle_run_raises:
  assumes cands: "candidates to_list ft force st = pre @ t # post"
    and pre: "handle_loop T sch bb board force lcb pre (logging_info (keyword (event st)) board st)
                = (None, st1)"
    and hosts: "AvailableHosts T t sch board (world st1) = (Inr True, w1)"
    and raises: "Run T t sch bb board force (mv (event st1)) lcb w1 = (Inl e, w2)"
  shows "Handle to_list ft T sch bb board force lcb st =
           (Some e,
            st1\<lparr>world := w2,
                trace := trace st1 @
                  [AvailableHostsCall t sch board (Inr True),
                   RunCall t sch bb board force (mv (event st1)) lcb (Inl e)]\<rparr>)
       \<and> event (snd (Handle to_list ft T sch bb board force lcb st)) = event st1
       \<and> asked (performed st (snd (Handle to_list ft T sch bb board force lcb st))) = pre @ [t]"
proof -
  let ?st2 = "st1\<lparr>world := w2,
                trace := trace st1 @
                  [AvailableHostsCall t sch board (Inr True),
                   RunCall t sch bb board force (mv (event st1)) lcb (Inl e)]\<rparr>"
  have body: "handle_task T sch bb board force lcb t st1 = (Some e, ?st2)"
    using hosts raises by (simp add: handle_task_def call_AvailableHosts_def call_Run_def)
  have app: "handle_loop T sch bb board force lcb (xs @ t # post) s = (Some e, ?st2)"
    if "handle_loop T sch bb board force lcb xs s = (None, st1)" for xs s
    using that
  proof (induction xs arbitrary: s)
    case Nil
    then show ?case by (simp add: body)
  next
    case (Cons x xs)
    from Cons.prems show ?case
    proof (cases rule: handle_loop_Cons_cases)
      case (stop e')
      then show ?thesis by simp
    next
      case (continue s1)
      then show ?thesis by (simp add: Cons.IH)
    qed
  qed
  have result: "Handle to_list ft T sch bb board force lcb st = (Some e, ?st2)"
    unfolding Handle_loop cands using pre by (rule app)
  have "trace st1 = trace (logging_info (keyword (event st)) board st)
          @ performed (logging_info (keyword (event st)) board st) st1"
    using pre by (rule handle_loop_trace)
  then have "trace ?st2 = trace st @
      (LoggingInfo (keyword (event st)) board
        # performed (logging_info (keyword (event st)) board st) st1
        @ [AvailableHostsCall t sch board (Inr True),
           RunCall t sch bb board force (mv (event st1)) lcb (Inl e)])"
    by (simp add: logging_info_def)
  then have "performed st ?st2 =
      LoggingInfo (keyword (event st)) board
        # performed (logging_info (keyword (event st)) board st) st1
        @ [AvailableHostsCall t sch board (Inr True),
           RunCall t sch bb board force (mv (event st1)) lcb (Inl e)]"
    by (rule performed_eq)
  moreover have "asked (performed (logging_info (keyword (event st)) board st) st1) = pre"
    using handle_loop_asked [OF pre] by simp
  ultimately have "asked (performed st ?st2) = pre @ [t]"
    by (simp add: asked_append)
  with result show ?thesis
    by simp
qed

theorem Handle_run_raises_witness:
  "candidates sorted_list_of_set (FilterTasks sorted_list_of_set) True (example_state [1, 4, 5])
     = [1] @ 4 # [5]
   \<and> handle_loop example_tasks () example_branch_builds ''x86-alex'' True None [1]
        (logging_info (keyword (event (example_state [1, 4, 5]))) ''x86-alex'' (example_state [1, 4, 5]))
      = (None, example_after_task_1)
   \<and> AvailableHosts example_tasks 4 () ''x86-alex'' (world example_after_task_1) = (Inr True, 3)
   \<and> Run example_tasks 4 () example_branch_builds ''x86-alex'' True (mv (event example_after_task_1)) None 3
      = (Inl (External ''boom''), 4)
   \<and> example_Handle True [1, 4, 5] =
        (Some (External ''boom''),
         example_after_task_1\<lparr>world := 4,
           trace := trace example_after_task_1 @
             [AvailableHostsCall 4 () ''x86-alex'' (Inr True),
              RunCall 4 () example_branch_builds ''x86-alex'' True (mv (event example_after_task_1)) None
                (Inl (External ''boom''))]\<rparr>)
   \<and> event (snd (example_Handle True [1, 4, 5])) = event example_after_task_1
   \<and> asked (performed (example_state [1, 4, 5]) (snd (example_Handle True [1, 4, 5]))) = [1] @ [4]"
proof -
  have h1: "candidates sorted_list_of_set (FilterTasks sorted_list_of_set) True (example_state [1, 4, 5])
     = [1] @ 4 # [5]"
    by code_simp
  have h2: "handle_loop example_tasks () example_branch_builds ''x86-alex'' True None [1]
        (logging_info (keyword (event (example_state [1, 4, 5]))) ''x86-alex'' (example_state [1, 4, 5]))
      = (None, example_after_task_1)"
    by code_simp
  have h3: "AvailableHosts example_tasks 4 () ''x86-alex'' (world example_after_task_1) = (Inr True, 3)"
    by code_simp
  have h4: "Run example_tasks 4 () example_branch_builds ''x86-alex'' True (mv (event example_after_task_1)) None 3
      = (Inl (External ''boom''), 4)"
    by code_simp
  from Handle_run_raises [OF h1 h2 h3 h4] h1 h2 h3 h4 show ?thesis
    unfolding example_Handle_def
    by (intro conjI) (elim conjE, assumption)+
qed

subsection \<open>Tasks without hosts\<close>

text \<open>
  Claim C10. Let \<open>t\<close> be a task none of whose host-availability checks in a call of
  \<^verbatim>\<open>Handle\<close> returned true. Then \<^verbatim>\<open>Handle\<close> neither removes \<open>t\<close> from the task set (nor
  adds it) nor calls its \<^verbatim>\<open>Run\<close>. If moreover \<^verbatim>\<open>ShouldHaveAvailableHosts\<close> of \<open>t\<close> did not
  return true, the only effects about \<open>t\<close> are these two kinds of queries themselves:
  there is no log line and no other call for it.
\<close>

theorem Handle_skips_without_hosts:
  assumes "Handle to_list ft T sch bb board force lcb st = (r, st')"
    and "AvailableHostsCall t sch board (Inr True) \<notin> set (performed st st')"
  shows "(t \<in> tasks (event st') \<longleftrightarrow> t \<in> tasks (event st))
       \<and> (\<forall>s bb' b f m l res. RunCall t s bb' b f m l res \<notin> set (performed st st'))
       \<and> (ShouldHaveAvailableHostsCall t (Inr True) \<notin> set (performed st st') \<longrightarrow>
            (\<forall>e \<in> set (performed st st'). task_of e = Some t \<longrightarrow>
               (\<exists>s b res. e = AvailableHostsCall t s b res)
               \<or> (\<exists>res. e = ShouldHaveAvailableHostsCall t res)))"
proof -
  let ?st0 = "logging_info (keyword (event st)) board st"
  let ?es = "performed st st'"
  have loop: "handle_loop T sch bb board force lcb (candidates to_list ft force st) ?st0 = (r, st')"
    using assms(1) by (simp add: Handle_loop)
  have perf: "?es = LoggingInfo (keyword (event st)) board # performed ?st0 st'"
    using assms(1) by (rule Handle_performed)
  have ev0: "event ?st0 = event st"
    by (simp add: logging_info_def)
  have no_run: "RunCall t s bb' b f m l res \<notin> set ?es" for s bb' b f m l res
  proof
    assume "RunCall t s bb' b f m l res \<in> set ?es"
    then have "RunCall t s bb' b f m l res \<in> set (performed ?st0 st')"
      by (simp add: perf)
    from handle_loop_RunCall [OF loop this] assms(2) show False
      by (simp add: perf)
  qed
  then have "t \<notin> not_kept ?es"
    by (simp add: not_kept_iff)
  moreover from handle_loop_frame [OF loop]
  have "tasks (event st') = tasks (event st) - not_kept ?es"
    by (simp add: perf ev0)
  ultimately have same: "t \<in> tasks (event st') \<longleftrightarrow> t \<in> tasks (event st)"
    by simp
  have silent: "(\<exists>s b res. e = AvailableHostsCall t s b res)
      \<or> (\<exists>res. e = ShouldHaveAvailableHostsCall t res)"
    if quiet: "ShouldHaveAvailableHostsCall t (Inr True) \<notin> set ?es"
      and e: "e \<in> set ?es" and about: "task_of e = Some t" for e
  proof (cases e)
    case (LoggingInfo k b)
    with about show ?thesis by simp
  next
    case (AvailableHostsCall u s b res)
    with about show ?thesis by simp
  next
    case (RunCall u s bb' b f m l res)
    with about e no_run show ?thesis by simp
  next
    case (ShouldHaveAvailableHostsCall u res)
    with about show ?thesis by simp
  next
    case (LoggingWarning u b)
    with about e have "LoggingWarning t b \<in> set (performed ?st0 st')"
      by (simp add: perf)
    from handle_loop_LoggingWarning [OF loop this] quiet show ?thesis
      by (simp add: perf)
  qed
  from same no_run silent show ?thesis
    by blast
qed

theorem Handle_skips_without_hosts_witness:
  "AvailableHostsCall 3 () ''x86-alex'' (Inr True)
      \<notin> set (performed (example_state [3, 5]) (snd (example_Handle False [3, 5])))
   \<and> ShouldHaveAvailableHostsCall 3 (Inr True)
      \<notin> set (performed (example_state [3, 5]) (snd (example_Handle False [3, 5])))
   \<and> (3 \<in> tasks (event (snd (example_Handle False [3, 5]))) \<longleftrightarrow> 3 \<in> tasks (event (example_state [3, 5])))
   \<and> 3 \<in> tasks (event (example_state [3, 5]))
   \<and> performed (example_state [3, 5]) (snd (example_Handle False [3, 5])) =
        [LoggingInfo ''nightly'' ''x86-alex'',
         AvailableHostsCall 3 () ''x86-alex'' (Inr False),
         ShouldHaveAvailableHostsCall 3 (Inr False),
         AvailableHostsCall 5 () ''x86-alex'' (Inr True),
         RunCall 5 () example_branch_builds ''x86-alex'' False () None (Inr True)]"
proof -
  have h1: "Handle sorted_list_of_set (FilterTasks sorted_list_of_set) example_tasks ()
       example_branch_builds ''x86-alex'' False None (example_state [3, 5])
      = (fst (example_Handle False [3, 5]), snd (example_Handle False [3, 5]))"
    by (simp add: example_Handle_def)
  have h2: "AvailableHostsCall 3 () ''x86-alex'' (Inr True)
      \<notin> set (performed (example_state [3, 5]) (snd (example_Handle False [3, 5])))"
    by code_simp
  have h3: "ShouldHaveAvailableHostsCall 3 (Inr True)
      \<notin> set (performed (example_state [3, 5]) (snd (example_Handle False [3, 5])))"
    by code_simp
  have v1: "3 \<in> tasks (event (example_state [3, 5]))"
    by code_simp
  have v2: "performed (example_state [3, 5]) (snd (example_Handle False [3, 5])) =
        [LoggingInfo ''nightly'' ''x86-alex'',
         AvailableHostsCall 3 () ''x86-alex'' (Inr False),
         ShouldHaveAvailableHostsCall 3 (Inr False),
         AvailableHostsCall 5 () ''x86-alex'' (Inr True),
         RunCall 5 () example_branch_builds ''x86-alex'' False () None (Inr True)]"
    by code_simp
  from Handle_skips_without_hosts [OF h1 h2] h2 h3 v1 v2 show ?thesis
    by (intro conjI) (elim conjE, assumption)+
qed

section \<open>Properties of the Launch Control lookup\<close>

text \<open>The two loops of the lookup do what steps 3 and 4 of the specification say.\<close>

lemma translate_targets_each:
  "translate_targets L d branch ts builds st = translate_each L d (map (Pair branch) ts) builds st"
  by (induction ts arbitrary: builds st)
     (auto simp: LATEST_LAUNCH_CONTROL_BUILD_FMT_def split: prod.splits sum.splits)

lemma translate_each_append:
  "translate_each L d (ps @ qs) builds st =
     (case translate_each L d ps builds st of
        (Inl e, st1) \<Rightarrow> (Inl e, st1)
      | (Inr builds1, st1) \<Rightarrow> translate_each L d qs builds1 st1)"
  by (induction ps arbitrary: builds st) (auto split: prod.splits sum.splits)

lemma translate_branches_each:
  "translate_branches L d board items builds st =
     translate_each L d (surviving_targets L board items) builds st"
proof (induction items arbitrary: builds st)
  case Nil
  show ?case by (simp add: surviving_targets_def)
next
  case (Cons item items)
  obtain branch targets where item: "item = (branch, targets)"
    by (cases item)
  have eq: "(\<lambda>t. Some board = fst (parse_launch_control_target L t))
      = (\<lambda>t. fst (parse_launch_control_target L t) = Some board)"
    by auto
  have split: "surviving_targets L board (item # items) =
      map (Pair branch) [t \<leftarrow> targets. fst (parse_launch_control_target L t) = Some board]
        @ surviving_targets L board items"
    by (simp add: surviving_targets_def item)
  show ?case
    unfolding split translate_each_append
    by (simp add: item translate_targets_each eq Cons.IH [unfolded surviving_targets_def] surviving_targets_def
        split: prod.splits sum.splits)
qed

lemma surviving_targets_append:
  "surviving_targets L board (xs @ ys) = surviving_targets L board xs @ surviving_targets L board ys"
  by (simp add: surviving_targets_def)

lemma surviving_targets_Cons:
  "surviving_targets L board ((branch, targets) # ys) =
     map (Pair branch) [t \<leftarrow> targets. fst (parse_launch_control_target L t) = Some board]
       @ surviving_targets L board ys"
  by (simp add: surviving_targets_def)

lemma surviving_targets_view:
  assumes "fst (parse_launch_control_target L ''shamu-eng'') = Some ''shamu''"
    and "fst (parse_launch_control_target L ''shamu-userdebug'') = Some ''shamu''"
    and "surviving_targets L ''shamu'' (before @ after) = []"
  shows "surviving_targets L ''shamu''
           (before @ (''git_mnc_release'', [''shamu-eng'', ''shamu-userdebug'']) # after)
         = [(''git_mnc_release'', ''shamu-eng''), (''git_mnc_release'', ''shamu-userdebug'')]"
proof -
  from assms(3) have "surviving_targets L ''shamu'' before = []"
    and "surviving_targets L ''shamu'' after = []"
    by (simp_all add: surviving_targets_append)
  with assms(1,2) show ?thesis
    by (simp add: surviving_targets_append surviving_targets_Cons)
qed

text \<open>
  Claim C6. Let the targets of the event's branch-to-targets view whose parsed board
  part is \<^verbatim>\<open>shamu\<close> be \<^verbatim>\<open>shamu-eng\<close> and \<^verbatim>\<open>shamu-userdebug\<close> of the branch
  \<^verbatim>\<open>git_mnc_release\<close>, and let the alias table leave the board \<^verbatim>\<open>shamu\<close> as it is. The
  view may hold targets of other boards, under this branch or others (by
  \<open>surviving_targets_view\<close> the view of the claim, the branch with exactly the two
  targets, is such a view). Then, when the devserver calls succeed,
  \<^verbatim>\<open>_LatestLaunchControlBuilds("shamu")\<close> picks one devserver, keeps exactly these two
  targets, sends that devserver exactly the two queries
  \<^verbatim>\<open>git_mnc_release/shamu-eng/LATEST\<close> and \<^verbatim>\<open>git_mnc_release/shamu-userdebug/LATEST\<close>, one
  per surviving target, and returns exactly the two answers.
\<close>

theorem LatestLaunchControlBuilds_shamu:
  assumes keeps: "surviving_targets L ''shamu''
                    (launch_control_branches_targets to_list T (event st)) =
                   [(''git_mnc_release'', ''shamu-eng''), (''git_mnc_release'', ''shamu-userdebug'')]"
    and same_board: "ANDROID_BOARD_TO_TARGET_MAP L ''shamu'' \<in> {None, Some ''shamu''}"
    and pick: "random_devserver L (world st) = (Inr d, w0)"
    and q1: "translate L d ''git_mnc_release/shamu-eng/LATEST'' w0 = (Inr b1, w1)"
    and q2: "translate L d ''git_mnc_release/shamu-userdebug/LATEST'' w1 = (Inr b2, w2)"
  shows "LatestLaunchControlBuilds to_list T L ''shamu'' st =
           (Inr [b1, b2],
            st\<lparr>world := w2,
               trace := trace st @
                 [RandomCall (Inr d),
                  TranslateCall d ''git_mnc_release/shamu-eng/LATEST'' (Inr b1),
                  TranslateCall d ''git_mnc_release/shamu-userdebug/LATEST'' (Inr b2)]\<rparr>)"
proof -
  have board: "(case ANDROID_BOARD_TO_TARGET_MAP L ''shamu'' of None \<Rightarrow> ''shamu'' | Some b \<Rightarrow> b) = ''shamu''"
    using same_board by auto
  show ?thesis
    unfolding LatestLaunchControlBuilds_def board Let_def
    using keeps pick q1 q2
    by (simp add: call_random_def translate_branches_each call_translate_def)
qed

theorem LatestLaunchControlBuilds_shamu_witness:
  "surviving_targets example_launch_control ''shamu''
     (launch_control_branches_targets sorted_list_of_set example_tasks (event (example_lookup_state [1, 2, 3])))
     = [(''git_mnc_release'', ''shamu-eng''), (''git_mnc_release'', ''shamu-userdebug'')]
   \<and> launch_control_branches_targets sorted_list_of_set example_tasks (event (example_lookup_state [1, 2, 3]))
     = [(''git_mnc_release'', [''shamu-eng'', ''shamu-userdebug'', ''hammerhead-userdebug'']),
        (''git_nyc_release'', [''hammerhead-userdebug''])]
   \<and> ANDROID_BOARD_TO_TARGET_MAP example_launch_control ''shamu'' \<in> {None, Some ''shamu''}
   \<and> random_devserver example_launch_control (world (example_lookup_state [1, 2, 3])) = (Inr 0, 1)
   \<and> translate example_launch_control 0 ''git_mnc_release/shamu-eng/LATEST'' 1
       = (Inr ''git_mnc_release/shamu-eng/123'', 2)
   \<and> translate example_launch_control 0 ''git_mnc_release/shamu-userdebug/LATEST'' 2
       = (Inr ''git_mnc_release/shamu-userdebug/123'', 3)
   \<and> LatestLaunchControlBuilds sorted_list_of_set example_tasks example_launch_control ''shamu''
        (example_lookup_state [1, 2, 3]) =
        (Inr [''git_mnc_release/shamu-eng/123'', ''git_mnc_release/shamu-userdebug/123''],
         (example_lookup_state [1, 2, 3])
           \<lparr>world := 3,
            trace := trace (example_lookup_state [1, 2, 3]) @
              [RandomCall (Inr 0),
               TranslateCall 0 ''git_mnc_release/shamu-eng/LATEST'' (Inr ''git_mnc_release/shamu-eng/123''),
               TranslateCall 0 ''git_mnc_release/shamu-userdebug/LATEST''
                 (Inr ''git_mnc_release/shamu-userdebug/123'')]\<rparr>)"
proof -
  have h1: "surviving_targets example_launch_control ''shamu''
     (launch_control_branches_targets sorted_list_of_set example_tasks (event (example_lookup_state [1, 2, 3])))
     = [(''git_mnc_release'', ''shamu-eng''), (''git_mnc_release'', ''shamu-userdebug'')]"
    by code_simp
  have v: "launch_control_branches_targets sorted_list_of_set example_tasks (event (example_lookup_state [1, 2, 3]))
     = [(''git_mnc_release'', [''shamu-eng'', ''shamu-userdebug'', ''hammerhead-userdebug'']),
        (''git_nyc_release'', [''hammerhead-userdebug''])]"
    by code_simp
  have h2: "ANDROID_BOARD_TO_TARGET_MAP example_launch_control ''shamu'' \<in> {None, Some ''shamu''}"
    by (simp add: example_launch_control_def)
  have h5: "random_devserver example_launch_control (world (example_lookup_state [1, 2, 3])) = (Inr 0, 1)"
    by (simp add: example_launch_control_def example_lookup_state_def)
  have h6: "translate example_launch_control 0 ''git_mnc_release/shamu-eng/LATEST'' 1
       = (Inr ''git_mnc_release/shamu-eng/123'', 2)"
    by (simp add: example_launch_control_def)
  have h7: "translate example_launch_control 0 ''git_mnc_release/shamu-userdebug/LATEST'' 2
       = (Inr ''git_mnc_release/shamu-userdebug/123'', 3)"
    by (simp add: example_launch_control_def)
  from LatestLaunchControlBuilds_shamu [OF h1 h2 h5 h6 h7] h1 v h2 h5 h6 h7
  show ?thesis
    by (intro conjI) assumption+
qed

end
